theory Spec2Isabelle
  imports Complex_Main "HOL-Library.Sublist"
begin

section \<open>The KingsForms automation engine\<close>

text \<open>
  A shallow embedding of \<^verbatim>\<open>src/automationEngine.js\<close>, class
  \<^verbatim>\<open>KingsFormsAutomationEngine\<close>. The engine object is a record that every method takes
  and returns; an exception is a value \<open>Threw msg\<close>. A string is the list of its UTF-16
  code units. A number is a double (the delays), with every operation rounded as
  binary64 rounds it, or an integer (the counters and \<open>maxRetries\<close>). The browser
  (puppeteer's page) and the callers of \<open>stop()\<close>/\<open>pause()\<close>
  are the environment: what they do at the n-th point where the engine awaits them is
  the n-th element of a sequence of steps, so a theorem that quantifies over the
  sequence covers every such behaviour of the environment. A call of \<open>resume()\<close> or a
  second call of \<open>startAutomation\<close> while a run is in progress is not modelled. The
  methods that only drive the browser (\<open>initialize\<close>, \<open>fillForm\<close> and the methods it
  calls, \<open>submitForm\<close>, \<open>handleRetry\<close>, \<open>cleanup\<close>) appear through their outcome, and
  log lines are left out.
\<close>

subsection \<open>Strings of the JavaScript runtime\<close>

text \<open>A string is a list of UTF-16 code units, numbers below 65536 (no function here
  depends on the bound). \<open>utf16\<close> gives the code units of a literal written in ASCII.\<close>

type_synonym jsstring = "nat list"

definition utf16 :: "string \<Rightarrow> jsstring" where
  "utf16 s = map of_char s"

text \<open>\<^verbatim>\<open>s.includes(sub)\<close>: \<open>sub\<close> occurs in \<open>s\<close> as a contiguous substring.\<close>

fun str_includes :: "jsstring \<Rightarrow> jsstring \<Rightarrow> bool" where
  "str_includes [] sub = (sub = [])"
| "str_includes (c # cs) sub = (prefix sub (c # cs) \<or> str_includes cs sub)"

text \<open>\<^verbatim>\<open>s.trim()\<close> removes the white space and the line terminators of ECMAScript from
  both ends: tab, line feed, vertical tab, form feed, carriage return, space, no-break
  space, U+1680, U+2000 to U+200A, U+2028, U+2029, U+202F, U+205F, U+3000 and U+FEFF.
  Each is one code unit.\<close>

definition isSpace :: "nat \<Rightarrow> bool" where
  "isSpace c =
     (c \<in> set [0x09, 0x0A, 0x0B, 0x0C, 0x0D, 0x20, 0xA0, 0x1680, 0x2028, 0x2029, 0x202F,
               0x205F, 0x3000, 0xFEFF] \<or>
      (0x2000 \<le> c \<and> c \<le> 0x200A))"

definition trim :: "jsstring \<Rightarrow> jsstring" where
  "trim s = rev (dropWhile isSpace (rev (dropWhile isSpace s)))"

text \<open>\<^verbatim>\<open>s.split("/").pop()\<close>: what follows the last slash (code unit 0x2F), the whole
  string when there is none.\<close>

definition lastSegment :: "jsstring \<Rightarrow> jsstring" where
  "lastSegment s = rev (takeWhile (\<lambda>c. c \<noteq> 0x2F) (rev s))"

text \<open>\<^verbatim>\<open>xs.join(sep)\<close>.\<close>

fun join :: "jsstring \<Rightarrow> jsstring list \<Rightarrow> jsstring" where
  "join sep [] = []"
| "join sep [x] = x"
| "join sep (x # y # ys) = x @ sep @ join sep (y # ys)"

subsection \<open>Numbers of the JavaScript runtime\<close>

text \<open>
  A number is a double. The finite doubles are reals; \<open>None\<close> stands for \<^verbatim>\<open>NaN\<close>,
  \<^verbatim>\<open>Infinity\<close> and \<^verbatim>\<open>-Infinity\<close>, which the engine never tells apart: an addition,
  subtraction or multiplication with such an operand gives such a result again, and
  \<^verbatim>\<open>setTimeout\<close> treats the three alike. The two zeros are one.
\<close>

type_synonym number = "real option"

text \<open>Rounding to the nearest integer, ties to the even one.\<close>

definition rne :: "real \<Rightarrow> int" where
  "rne t =
     (let n = \<lfloor>t\<rfloor>; d = t - of_int n
      in if d < 1 / 2 then n else if 1 / 2 < d then n + 1 else if even n then n else n + 1)"

text \<open>The doubles around \<open>x \<noteq> 0\<close> are the multiples of \<open>2 powr ulpExp x\<close>: 53 significant
  bits, and the subnormal spacing \<open>2 powr - 1074\<close> at the bottom.\<close>

definition ulpExp :: "real \<Rightarrow> int" where
  "ulpExp x = max (\<lfloor>log 2 \<bar>x\<bar>\<rfloor> - 52) (- 1074)"

text \<open>\<open>fl x\<close> is the binary64 value nearest to \<open>x\<close>, ties to even, with no bound on the
  exponent; \<open>double x\<close> is the result of an operation whose exact value is \<open>x\<close>: it
  overflows to an infinity when \<open>fl x\<close> reaches \<open>2 ^ 1024\<close>.\<close>

definition fl :: "real \<Rightarrow> real" where
  "fl x =
     (if x = 0 then 0
      else sgn x * (of_int (rne (\<bar>x\<bar> / 2 powr of_int (ulpExp x))) * 2 powr of_int (ulpExp x)))"

definition double :: "real \<Rightarrow> number" where
  "double x = (if \<bar>fl x\<bar> < 2 ^ 1024 then Some (fl x) else None)"

text \<open>The operators \<^verbatim>\<open>+\<close>, \<^verbatim>\<open>-\<close> and \<^verbatim>\<open>*\<close> on numbers.\<close>

definition dadd :: "number \<Rightarrow> number \<Rightarrow> number" where
  "dadd a b = (case (a, b) of (Some x, Some y) \<Rightarrow> double (x + y) | _ \<Rightarrow> None)"

definition dsub :: "number \<Rightarrow> number \<Rightarrow> number" where
  "dsub a b = (case (a, b) of (Some x, Some y) \<Rightarrow> double (x - y) | _ \<Rightarrow> None)"

definition dmul :: "number \<Rightarrow> number \<Rightarrow> number" where
  "dmul a b = (case (a, b) of (Some x, Some y) \<Rightarrow> double (x * y) | _ \<Rightarrow> None)"

subsection \<open>Data\<close>

text \<open>A record of the batch: field names with their values, as the CSV processor
  produced them.\<close>

type_synonym row = "(jsstring \<times> jsstring) list"

text \<open>The part of \<^verbatim>\<open>this.config\<close> that the controller reads. \<open>maxRetries\<close> is
  \<^verbatim>\<open>parseInt(process.env.MAX_RETRIES) || 3\<close> unless the caller overrides it: any integer but
  0 from the environment, any value from the caller. The two delays are numbers.\<close>

record config =
  url :: jsstring
  submissionDelay :: number
  maxRetries :: int
  randomDelayVariation :: number

text \<open>\<^verbatim>\<open>{index, record, attempts}\<close> and \<^verbatim>\<open>{index, record, error, attempts}\<close>.\<close>

record success_entry =
  index :: nat
  record_val :: row
  attempts :: nat

record failed_entry = success_entry +
  error :: jsstring

record run_result =
  successful :: "success_entry list"
  failed :: "failed_entry list"
  retries :: nat

text \<open>How a call returns: normally, or by throwing \<^verbatim>\<open>Error(msg)\<close>.\<close>

datatype completion = Returned | Threw jsstring

text \<open>The submit control found after submission: \<^verbatim>\<open>btn.disabled\<close> and
  \<^verbatim>\<open>btn.style.display\<close>.\<close>

record button =
  disabled :: bool
  display :: jsstring

text \<open>
  What the queries of \<^verbatim>\<open>waitForSubmissionSuccess\<close> see on the page after submission.
  A query that throws is \<open>Inl\<close> of the error's message.
  \<^item> \<open>page_url\<close>: \<^verbatim>\<open>this.page.url()\<close>;
  \<^item> \<open>successIndicators\<close>: how many elements match the success selectors;
  \<^item> \<open>inputs\<close>: the values of the inputs that are not of type submit, button or hidden;
  \<^item> \<open>errorElements\<close>: the \<^verbatim>\<open>textContent\<close> of each element that matches the error
    selectors (\<open>Inl\<close> when the query or the extraction of the texts throws);
  \<^item> \<open>submitButton\<close>: the first element that matches the submit selector, if any.
\<close>

record page =
  page_url :: jsstring
  successIndicators :: "jsstring + nat"
  inputs :: "jsstring + jsstring list"
  errorElements :: "jsstring + jsstring list"
  submitButton :: "jsstring + button option"

text \<open>
  One step of the environment: what the browser and the operator do while the engine
  awaits them once. A step is consumed by \<^verbatim>\<open>navigateToForm\<close> (which reads \<open>nav\<close>), by one
  iteration of the retry loop (\<open>fill\<close>, \<open>submit\<close>, \<open>page\<close>, \<open>reload\<close>) or by the wait
  between two records (\<open>rnd\<close>).
  \<^item> \<open>nav\<close>, \<open>fill\<close>, \<open>submit\<close>, \<open>reload\<close>: the message of the error that
    \<^verbatim>\<open>navigateToForm\<close>'s body, \<^verbatim>\<open>fillForm\<close>, \<^verbatim>\<open>submitForm\<close>, \<^verbatim>\<open>handleRetry\<close>
    throws, \<open>None\<close> when it returns;
  \<^item> \<open>rnd\<close>: the value of \<^verbatim>\<open>Math.random()\<close>;
  \<^item> \<open>halt\<close>: \<^verbatim>\<open>stop()\<close> or \<^verbatim>\<open>pause()\<close> is called while the engine awaits in this step.
\<close>

record step =
  nav :: "jsstring option"
  fill :: "jsstring option"
  submit :: "jsstring option"
  page :: page
  reload :: "jsstring option"
  rnd :: real
  halt :: bool

text \<open>
  The engine object. \<open>tick\<close> and \<open>waits\<close> belong to the model: the number of steps of
  the environment consumed so far, and the timers (their delays in milliseconds) that
  the engine has set and awaited between records, the oldest first.
\<close>

record engine =
  config :: config
  isRunning :: bool
  currentIndex :: nat
  records :: "row list"
  results :: run_result
  tick :: nat
  waits :: "int list"

subsection \<open>Success detection\<close>

text \<open>The value computed in the page for \<^verbatim>\<open>formCleared\<close> (lines 422 to 427):
  \<^verbatim>\<open>Array.from(inputs).some((input) => input.value.trim() === "")\<close>.\<close>

definition formCleared :: "jsstring list \<Rightarrow> bool" where
  "formCleared vs = list_ex (\<lambda>v. trim v = []) vs"

text \<open>\<^verbatim>\<open>els.map((el) => el.textContent.trim()).filter((text) => text).join(" ")\<close>.\<close>

definition errorText :: "jsstring list \<Rightarrow> jsstring" where
  "errorText ts = join (utf16 '' '') (filter (\<lambda>t. t \<noteq> []) (map trim ts))"

text \<open>The \<^verbatim>\<open>try\<close> block of \<^verbatim>\<open>waitForSubmissionSuccess\<close>: \<open>Inr ()\<close> when it reaches a
  \<^verbatim>\<open>return\<close> or its end, \<open>Inl msg\<close> when something in it throws.\<close>

definition detect :: "config \<Rightarrow> page \<Rightarrow> jsstring + unit" where
  "detect cfg p =
     (let hasUrlChanged = \<not> str_includes (page_url p) (lastSegment (url cfg)) in
      case successIndicators p of
        Inl m \<Rightarrow> Inl m
      | Inr n \<Rightarrow>
         (case inputs p of
            Inl m \<Rightarrow> Inl m
          | Inr vs \<Rightarrow>
              if n > 0 \<or> hasUrlChanged \<or> formCleared vs then Inr ()
              else
                (case errorElements p of
                   Inl m \<Rightarrow> Inl m
                 | Inr ts \<Rightarrow>
                     if length ts > 0 \<and> errorText ts \<noteq> []
                     then Inl (utf16 ''Form validation error: '' @ errorText ts)
                     else
                       (case submitButton p of
                          Inl m \<Rightarrow> Inl m
                        | Inr None \<Rightarrow> Inr ()
                        | Inr (Some btn) \<Rightarrow>
                            if disabled btn \<or> display btn = utf16 ''none'' then Inr ()
                            else Inr ()))))"

text \<open>\<^verbatim>\<open>waitForSubmissionSuccess\<close> with its \<^verbatim>\<open>catch\<close>: only an error whose message
  contains "Form validation error" leaves the method.\<close>

definition waitForSubmissionSuccess :: "config \<Rightarrow> page \<Rightarrow> completion" where
  "waitForSubmissionSuccess cfg p =
     (case detect cfg p of
        Inr _ \<Rightarrow> Returned
      | Inl m \<Rightarrow>
          if str_includes m (utf16 ''Form validation error'') then Threw m
          else if str_includes m (utf16 ''Navigating frame was detached'') then Returned
          else Returned)"

subsection \<open>Pacing\<close>

text \<open>\<^verbatim>\<open>getRandomDelay\<close>, given the value \<open>r\<close> of \<^verbatim>\<open>Math.random()\<close>, a finite double:
  line 513 is one multiplication, line 514 a subtraction, a multiplication and an
  addition, each rounded.\<close>

definition getRandomDelay :: "config \<Rightarrow> real \<Rightarrow> number" where
  "getRandomDelay cfg r =
     (let baseDelay = submissionDelay cfg;
          variation = dmul baseDelay (randomDelayVariation cfg)
      in dadd baseDelay (dmul (dsub (Some r) (Some (1 / 2))) variation))"

text \<open>The delay in milliseconds of the timer that \<^verbatim>\<open>setTimeout(resolve, ms)\<close> sets in
  Node.js: a delay larger than 2147483647, less than 1 or not a number is set to 1,
  and a delay that is not an integer is truncated.\<close>

definition timerDelay :: "number \<Rightarrow> int" where
  "timerDelay ms =
     (case ms of
        None \<Rightarrow> 1
      | Some x \<Rightarrow> if 1 \<le> x \<and> x \<le> 2147483647 then \<lfloor>x\<rfloor> else 1)"

text \<open>A promise that a timer resolves: the delay of the timer in milliseconds, the
  milliseconds that have passed since the timer was set, and whether the callback of
  the timer has run.\<close>

record promise =
  timeout :: int
  elapsed :: int
  resolved :: bool

text \<open>\<^verbatim>\<open>sleep(ms)\<close> is \<^verbatim>\<open>new Promise((resolve) => setTimeout(resolve, ms))\<close>: a
  pending promise whose \<^verbatim>\<open>resolve\<close> is the callback of one timer and is handed to
  nothing else.\<close>

definition sleep :: "number \<Rightarrow> promise" where
  "sleep ms = \<lparr>timeout = timerDelay ms, elapsed = 0, resolved = False\<rparr>"

subsection \<open>The controller\<close>

text \<open>\<^verbatim>\<open>stop()\<close> and \<^verbatim>\<open>pause()\<close> (they also write a line to the log, which is not part
  of the engine).\<close>

definition stop :: "engine \<Rightarrow> engine" where
  "stop w = w\<lparr>isRunning := False\<rparr>"

definition pause :: "engine \<Rightarrow> engine" where
  "pause w = w\<lparr>isRunning := False\<rparr>"

text \<open>The body of the \<^verbatim>\<open>try\<close> of one attempt (lines 192 to 196): \<^verbatim>\<open>fillForm\<close>,
  \<^verbatim>\<open>submitForm\<close>, \<^verbatim>\<open>waitForSubmissionSuccess\<close>.\<close>

definition attempt :: "config \<Rightarrow> step \<Rightarrow> completion" where
  "attempt cfg e =
     (case fill e of
        Some m \<Rightarrow> Threw m
      | None \<Rightarrow>
         (case submit e of
            Some m \<Rightarrow> Threw m
          | None \<Rightarrow> waitForSubmissionSuccess cfg (page e)))"

text \<open>
  The \<^verbatim>\<open>while (retryCount <= maxRetries && this.isRunning)\<close> loop of \<^verbatim>\<open>processRecord\<close>
  (lines 190 to 248), entered with the given \<open>retryCount\<close>. A call of \<^verbatim>\<open>stop()\<close> during
  the iteration clears \<open>isRunning\<close>; the loop reads the flag again only in its condition.
  An error of the navigation to a fresh form after a success is caught and ignored. An
  error of \<^verbatim>\<open>handleRetry\<close> is thrown inside the \<^verbatim>\<open>catch\<close> block and leaves the method.
\<close>

function retry_loop :: "(nat \<Rightarrow> step) \<Rightarrow> nat \<Rightarrow> engine \<Rightarrow> completion \<times> engine" where
  "retry_loop env retryCount w =
     (if int retryCount \<le> maxRetries (config w) \<and> isRunning w then
        (let e = env (tick w);
             w1 = w\<lparr>tick := tick w + 1, isRunning := \<not> halt e\<rparr>
         in case attempt (config w) e of
              Returned \<Rightarrow>
                (Returned,
                 w1\<lparr>results := (results w1)\<lparr>successful := successful (results w1) @
                        [\<lparr>index = currentIndex w1,
                          record_val = records w1 ! currentIndex w1,
                          attempts = retryCount + 1\<rparr>]\<rparr>,
                    currentIndex := currentIndex w1 + 1\<rparr>)
            | Threw msg \<Rightarrow>
                (let w2 = w1\<lparr>results := (results w1)\<lparr>retries := retries (results w1) + 1\<rparr>\<rparr>
                 in if int (retryCount + 1) \<le> maxRetries (config w) then
                      (case reload e of
                         Some m \<Rightarrow> (Threw m, w2)
                       | None \<Rightarrow> retry_loop env (retryCount + 1) w2)
                    else
                      (Returned,
                       w2\<lparr>results := (results w2)\<lparr>failed := failed (results w2) @
                              [\<lparr>index = currentIndex w2,
                                record_val = records w2 ! currentIndex w2,
                                attempts = retryCount + 1,
                                error = msg\<rparr>]\<rparr>,
                          currentIndex := currentIndex w2 + 1\<rparr>)))
      else (Returned, w))"
  by pat_completeness auto
termination
  by (relation "measure (\<lambda>(env, retryCount, w). nat (maxRetries (config w) + 1 - int retryCount))")
     auto

declare retry_loop.simps [simp del]

text \<open>The wait between two records (lines 250 to 257), as one step of the environment:
  the engine awaits the promise of \<^verbatim>\<open>sleep(delay)\<close>, and \<^verbatim>\<open>stop()\<close> may be called
  meanwhile.\<close>

definition pace :: "(nat \<Rightarrow> step) \<Rightarrow> engine \<Rightarrow> engine" where
  "pace env w =
     (if isRunning w \<and> currentIndex w < length (records w) then
        (let e = env (tick w);
             delay = getRandomDelay (config w) (rnd e)
         in w\<lparr>tick := tick w + 1, waits := waits w @ [timeout (sleep delay)],
              isRunning := \<not> halt e\<rparr>)
      else w)"




text \<open>\<^verbatim>\<open>processRecord\<close>. Outside the list \<^verbatim>\<open>record\<close> is undefined and the first log line
  throws a TypeError (its message is shortened here); the main loop never calls it
  there.\<close>

definition processRecord :: "(nat \<Rightarrow> step) \<Rightarrow> engine \<Rightarrow> completion \<times> engine" where
  "processRecord env w =
     (if currentIndex w < length (records w) then
        (case retry_loop env 0 w of
           (Threw m, w') \<Rightarrow> (Threw m, w')
         | (Returned, w') \<Rightarrow> (Returned, pace env w'))
      else (Threw (utf16 ''Cannot read properties of undefined''), w))"

text \<open>The \<^verbatim>\<open>while (this.isRunning && this.currentIndex < this.records.length)\<close> loop of
  \<^verbatim>\<open>startAutomation\<close>. It need not end (with a negative \<open>maxRetries\<close> no record is ever
  attempted): \<open>None\<close> is a run that never returns.\<close>

partial_function (option) run_loop :: "(nat \<Rightarrow> step) \<Rightarrow> engine \<Rightarrow> (completion \<times> engine) option" where
  "run_loop env w =
     (if isRunning w \<and> currentIndex w < length (records w) then
        (case processRecord env w of
           (Threw m, w') \<Rightarrow> Some (Threw m, w')
         | (Returned, w') \<Rightarrow> run_loop env w')
      else Some (Returned, w))"

text \<open>\<^verbatim>\<open>startAutomation(records, startIndex)\<close>. The first check throws before the
  \<^verbatim>\<open>try\<close>; everything after it ends in the \<^verbatim>\<open>finally\<close> that clears \<open>isRunning\<close>.
  \<^verbatim>\<open>navigateToForm\<close> wraps the error of its body.\<close>

definition startAutomation ::
  "(nat \<Rightarrow> step) \<Rightarrow> row list \<Rightarrow> nat \<Rightarrow> engine \<Rightarrow> (completion \<times> engine) option" where
  "startAutomation env recs startIndex w =
     (if isRunning w then Some (Threw (utf16 ''Automation is already running''), w)
      else
        (let w0 = w\<lparr>records := recs, currentIndex := startIndex, isRunning := True,
                    results := \<lparr>successful = [], failed = [], retries = 0\<rparr>\<rparr>;
             e = env (tick w0);
             w1 = w0\<lparr>tick := tick w0 + 1, isRunning := \<not> halt e\<rparr>
         in case nav e of
              Some m \<Rightarrow> Some (Threw (utf16 ''Navigation failed: '' @ m), w1\<lparr>isRunning := False\<rparr>)
            | None \<Rightarrow>
                (case run_loop env w1 of
                   None \<Rightarrow> None
                 | Some (c, w2) \<Rightarrow> Some (c, w2\<lparr>isRunning := False\<rparr>))))"

text \<open>\<^verbatim>\<open>resume()\<close>.\<close>

definition resume :: "(nat \<Rightarrow> step) \<Rightarrow> engine \<Rightarrow> (completion \<times> engine) option" where
  "resume env w =
     (if \<not> isRunning w \<and> length (records w) > 0 then
        startAutomation env (records w) (currentIndex w) (w\<lparr>isRunning := True\<rparr>)
      else Some (Returned, w))"

text \<open>The constructor: \<^verbatim>\<open>new KingsFormsAutomationEngine(config)\<close>.\<close>

definition newEngine :: "config \<Rightarrow> engine" where
  "newEngine cfg =
     \<lparr>config = cfg, isRunning = False, currentIndex = 0, records = [],
      results = \<lparr>successful = [], failed = [], retries = 0\<rparr>, tick = 0, waits = []\<rparr>"

text \<open>The number of records that have an entry in \<^verbatim>\<open>results\<close>.\<close>

definition entries :: "engine \<Rightarrow> nat" where
  "entries w = length (successful (results w)) + length (failed (results w))"

subsection \<open>Concrete runs\<close>

text \<open>The configuration of the constructor when the environment variables are unset
  (the literal \<^verbatim>\<open>0.2\<close> is the double nearest to one fifth), the same with one retry, and
  the same with a delay of 13 ms.\<close>

definition defaultConfig :: config where
  "defaultConfig =
     \<lparr>url = utf16 ''https://kingsforms.online/nobphcephzone3'', submissionDelay = Some 5000,
      maxRetries = 3, randomDelayVariation = Some (fl (1 / 5))\<rparr>"

definition oneRetry :: config where
  "oneRetry = defaultConfig\<lparr>maxRetries := 1\<rparr>"

definition thirteen :: config where
  "thirteen = defaultConfig\<lparr>submissionDelay := Some 13\<rparr>"

text \<open>Pages after submission, all still on the form with its fields filled: one
  shows a confirmation, one a validation error, one both.\<close>

definition accepted :: page where
  "accepted =
     \<lparr>page_url = utf16 ''https://kingsforms.online/nobphcephzone3'', successIndicators = Inr 1,
      inputs = Inr [utf16 ''Ada'', utf16 ''ada@example.org''], errorElements = Inr [],
      submitButton = Inr (Some \<lparr>disabled = False, display = utf16 ''block''\<rparr>)\<rparr>"

definition rejected :: page where
  "rejected =
     \<lparr>page_url = utf16 ''https://kingsforms.online/nobphcephzone3'', successIndicators = Inr 0,
      inputs = Inr [utf16 ''Ada'', utf16 ''ada@example.org''],
      errorElements = Inr [utf16 '' Invalid email ''],
      submitButton = Inr (Some \<lparr>disabled = False, display = utf16 ''block''\<rparr>)\<rparr>"


text \<open>A page where one input (an optional field) is empty and the other still filled:
  with a validation error, and with no marker at all.\<close>

definition oneFieldEmpty :: page where
  "oneFieldEmpty = rejected\<lparr>inputs := Inr [utf16 ''Ada'', []]\<rparr>"

definition partlyFilled :: page where
  "partlyFilled = oneFieldEmpty\<lparr>errorElements := Inr []\<rparr>"

text \<open>A step in which everything works and nobody stops the run; a step whose
  submission is rejected; an environment given by its first steps, quiet afterwards.\<close>

definition quiet :: step where
  "quiet =
     \<lparr>nav = None, fill = None, submit = None, page = accepted, reload = None,
      rnd = 0.5, halt = False\<rparr>"

definition refused :: step where
  "refused = quiet\<lparr>page := rejected\<rparr>"

definition script :: "step list \<Rightarrow> nat \<Rightarrow> step" where
  "script xs n = (if n < length xs then xs ! n else quiet)"

definition three :: "row list" where
  "three =
     [[(utf16 ''First Name'', utf16 ''Ada'')], [(utf16 ''First Name'', utf16 ''Bob'')],
      [(utf16 ''First Name'', utf16 ''Cy'')]]"


text \<open>The three-record scenario: navigation; record 1 accepted; wait; record 2 refused,
  then accepted; wait; record 3 refused twice.\<close>

definition scenario :: "nat \<Rightarrow> step" where
  "scenario = script [quiet, quiet, quiet, refused, quiet, quiet, refused, refused]"





text \<open>An engine that \<^verbatim>\<open>startAutomation\<close> has just set running on the given records.\<close>

definition started :: "config \<Rightarrow> row list \<Rightarrow> engine" where
  "started cfg recs = (newEngine cfg)\<lparr>records := recs, isRunning := True\<rparr>"

text \<open>The engine at the end of the three-record scenario.\<close>

definition scenarioEnd :: engine where
  "scenarioEnd =
     \<lparr>config = oneRetry, isRunning = False, currentIndex = 3, records = three,
      results =
        \<lparr>successful =
           [\<lparr>index = 0, record_val = [(utf16 ''First Name'', utf16 ''Ada'')], attempts = 1\<rparr>,
            \<lparr>index = 1, record_val = [(utf16 ''First Name'', utf16 ''Bob'')], attempts = 2\<rparr>],
         failed =
           [\<lparr>index = 2, record_val = [(utf16 ''First Name'', utf16 ''Cy'')], attempts = 2,
             error = utf16 ''Form validation error: Invalid email''\<rparr>],
         retries = 3\<rparr>,
      tick = 8, waits = [5000, 5000]\<rparr>"




definition firstOfThree :: engine where
  "firstOfThree = (started oneRetry three)\<lparr>tick := 1\<rparr>"

definition lastOfThree :: engine where
  "lastOfThree = (started oneRetry three)\<lparr>currentIndex := 2, tick := 6\<rparr>"

section \<open>Properties\<close>

subsection \<open>The retry loop, one iteration at a time\<close>

text \<open>The five ways through one iteration of the loop, and the induction that follows them.\<close>

lemma retry_loop_exit:
  "\<not> (int rc \<le> maxRetries (config w) \<and> isRunning w) \<Longrightarrow> retry_loop env rc w = (Returned, w)"
  by (subst retry_loop.simps) (rule if_not_P)

lemma retry_loop_success:
  assumes "int rc \<le> maxRetries (config w)" and "isRunning w"
    and "attempt (config w) (env (tick w)) = Returned"
  shows "retry_loop env rc w =
    (Returned,
     w\<lparr>tick := tick w + 1, isRunning := \<not> halt (env (tick w)),
       results := (results w)\<lparr>successful := successful (results w) @
         [\<lparr>index = currentIndex w, record_val = records w ! currentIndex w, attempts = rc + 1\<rparr>]\<rparr>,
       currentIndex := currentIndex w + 1\<rparr>)"
  using assms by (subst retry_loop.simps) (simp add: Let_def)

lemma retry_loop_again:
  assumes "isRunning w"
    and "attempt (config w) (env (tick w)) = Threw msg"
    and "int rc < maxRetries (config w)"
    and "reload (env (tick w)) = None"
  shows "retry_loop env rc w =
    retry_loop env (rc + 1)
      (w\<lparr>tick := tick w + 1, isRunning := \<not> halt (env (tick w)),
         results := (results w)\<lparr>retries := retries (results w) + 1\<rparr>\<rparr>)"
  using assms by (subst retry_loop.simps) (simp add: Let_def)

lemma retry_loop_reload_throws:
  assumes "isRunning w"
    and "attempt (config w) (env (tick w)) = Threw msg"
    and "int rc < maxRetries (config w)"
    and "reload (env (tick w)) = Some m"
  shows "retry_loop env rc w =
    (Threw m,
     w\<lparr>tick := tick w + 1, isRunning := \<not> halt (env (tick w)),
       results := (results w)\<lparr>retries := retries (results w) + 1\<rparr>\<rparr>)"
  using assms by (subst retry_loop.simps) (simp add: Let_def)

lemma retry_loop_exhausted:
  assumes "int rc \<le> maxRetries (config w)" and "isRunning w"
    and "attempt (config w) (env (tick w)) = Threw msg"
    and "\<not> int rc < maxRetries (config w)"
  shows "retry_loop env rc w =
    (Returned,
     w\<lparr>tick := tick w + 1, isRunning := \<not> halt (env (tick w)),
       results := (results w)\<lparr>retries := retries (results w) + 1,
         failed := failed (results w) @
           [\<lparr>index = currentIndex w, record_val = records w ! currentIndex w,
             attempts = rc + 1, error = msg\<rparr>]\<rparr>,
       currentIndex := currentIndex w + 1\<rparr>)"
  using assms by (subst retry_loop.simps) (simp add: Let_def)

lemma retry_loop_cases:
  fixes w :: engine
  obtains (exit) "\<not> (int rc \<le> maxRetries (config w) \<and> isRunning w)"
  | (success) "int rc \<le> maxRetries (config w)" "isRunning w" "attempt (config w) (env (tick w)) = Returned"
  | (again) msg where "isRunning w" "attempt (config w) (env (tick w)) = Threw msg"
       "int rc < maxRetries (config w)" "reload (env (tick w)) = None"
  | (reload_throws) msg m where "isRunning w" "attempt (config w) (env (tick w)) = Threw msg"
       "int rc < maxRetries (config w)" "reload (env (tick w)) = Some m"
  | (exhausted) msg where "int rc \<le> maxRetries (config w)" "isRunning w" "attempt (config w) (env (tick w)) = Threw msg"
       "\<not> int rc < maxRetries (config w)"
  by (cases "attempt (config w) (env (tick w))"; cases "reload (env (tick w))") blast+

lemma retry_loop_induct [case_names step]:
  fixes w :: engine
  assumes step: "\<And>rc (w :: engine).
     (\<And>msg. isRunning w \<Longrightarrow> attempt (config w) (env (tick w)) = Threw msg \<Longrightarrow>
        int rc < maxRetries (config w) \<Longrightarrow> reload (env (tick w)) = None \<Longrightarrow>
        P (rc + 1) (w\<lparr>tick := tick w + 1, isRunning := \<not> halt (env (tick w)),
                       results := (results w)\<lparr>retries := retries (results w) + 1\<rparr>\<rparr>))
     \<Longrightarrow> P rc w"
  shows "P rc w"
  using step
proof (induction env rc w rule: retry_loop.induct)
  case (1 env rc w)
  note hyp = "1.prems"
  show ?case
  proof (rule hyp)
    fix msg
    assume a: "isRunning w" "attempt (config w) (env (tick w)) = Threw msg"
      "int rc < maxRetries (config w)" "reload (env (tick w)) = None"
    from a have c: "int rc \<le> maxRetries (config w) \<and> isRunning w" by simp
    from a have le: "int (rc + 1) \<le> maxRetries (config w)" by simp
    from "1.IH" [OF c refl refl a(2) refl le a(4) hyp]
    show "P (rc + 1) (w\<lparr>tick := tick w + 1, isRunning := \<not> halt (env (tick w)),
                       results := (results w)\<lparr>retries := retries (results w) + 1\<rparr>\<rparr>)"
      by simp
  qed
qed

lemmas run_loop_induct = run_loop.raw_induct [rotated 1, consumes 1, case_names step]



lemma pace_frame:
  "records (pace env v) = records v \<and> config (pace env v) = config v \<and>
   results (pace env v) = results v \<and> currentIndex (pace env v) = currentIndex v \<and>
   (isRunning (pace env v) \<longrightarrow> isRunning v)"
  by (simp add: pace_def Let_def)

subsection \<open>Rounding to binary64\<close>

text \<open>Rounding is monotone, and it leaves the doubles where they are.\<close>

lemma rne_bounds: "\<lfloor>t\<rfloor> \<le> rne t \<and> rne t \<le> \<lfloor>t\<rfloor> + 1"
  by (simp add: rne_def Let_def)

lemma rne_of_int: "rne (of_int n) = n"
  by (simp add: rne_def)

lemma rne_mono: "s \<le> t \<Longrightarrow> rne s \<le> rne t"
proof -
  assume st: "s \<le> t"
  then have f: "\<lfloor>s\<rfloor> \<le> \<lfloor>t\<rfloor>" by (rule floor_mono)
  show ?thesis
  proof (cases "\<lfloor>s\<rfloor> = \<lfloor>t\<rfloor>")
    case True
    with st show ?thesis by (auto simp: rne_def Let_def)
  next
    case False
    with f have "\<lfloor>s\<rfloor> + 1 \<le> \<lfloor>t\<rfloor>" by simp
    with rne_bounds [of s] rne_bounds [of t] show ?thesis by linarith
  qed
qed

lemma ulpExp_bounds:
  assumes "0 < x"
  shows "2 powr of_int \<lfloor>log 2 x\<rfloor> \<le> x" and "x < 2 powr of_int (\<lfloor>log 2 x\<rfloor> + 1)"
  using floor_log_eq_powr_iff [of x 2 "\<lfloor>log 2 x\<rfloor>"] assms by simp_all

lemma pow2_int: "0 \<le> k \<Longrightarrow> (2::real) powr of_int k = of_int (2 ^ nat k)"
  using powr_realpow [of 2 "nat k"] by simp

lemma fl_pos_mono:
  assumes x: "0 < x" and xy: "x \<le> y"
  shows "fl x \<le> fl y"
proof -
  from x xy have y: "0 < y" by simp
  let ?Lx = "\<lfloor>log 2 x\<rfloor>" and ?Ly = "\<lfloor>log 2 y\<rfloor>"
  let ?qx = "ulpExp x" and ?qy = "ulpExp y"
  from x xy have L: "?Lx \<le> ?Ly" by (intro floor_mono) simp
  then have q: "?qx \<le> ?qy" using x y by (simp add: ulpExp_def)
  have fx: "fl x = of_int (rne (x / 2 powr of_int ?qx)) * 2 powr of_int ?qx"
    using x by (simp add: fl_def)
  have fy: "fl y = of_int (rne (y / 2 powr of_int ?qy)) * 2 powr of_int ?qy"
    using y by (simp add: fl_def)
  show ?thesis
  proof (cases "?qx = ?qy")
    case True
    from xy have "x / 2 powr of_int ?qy \<le> y / 2 powr of_int ?qy"
      by (simp add: divide_right_mono)
    then have "rne (x / 2 powr of_int ?qy) \<le> rne (y / 2 powr of_int ?qy)" by (rule rne_mono)
    then show ?thesis unfolding fx fy True by (simp add: mult_right_mono)
  next
    case False
    with q have lt: "?qx < ?qy" by simp
    with x y have qy: "?qy = ?Ly - 52" and Llt: "?Lx < ?Ly"
      by (auto simp: ulpExp_def max_def split: if_splits)
    from lt qy have k: "0 \<le> ?Ly - ?qx" by simp
    have "x < 2 powr of_int (?Lx + 1)" using ulpExp_bounds(2) [OF x] .
    also have "\<dots> \<le> 2 powr of_int ?Ly" using Llt by simp
    finally have xL: "x \<le> 2 powr of_int ?Ly" by simp
    have "x / 2 powr of_int ?qx \<le> 2 powr of_int ?Ly / 2 powr of_int ?qx"
      using xL by (simp add: divide_right_mono)
    also have "\<dots> = (2::real) powr of_int (?Ly - ?qx)" by (simp add: powr_diff)
    also have "\<dots> = of_int (2 ^ nat (?Ly - ?qx))" using k by (rule pow2_int)
    finally have "rne (x / 2 powr of_int ?qx) \<le> rne (of_int (2 ^ nat (?Ly - ?qx)))"
      by (rule rne_mono)
    then have "rne (x / 2 powr of_int ?qx) \<le> 2 ^ nat (?Ly - ?qx)" by (simp only: rne_of_int)
    then have "(of_int (rne (x / 2 powr of_int ?qx)) :: real) \<le> of_int (2 ^ nat (?Ly - ?qx))"
      by (simp only: of_int_le_iff)
    also have "\<dots> = 2 powr of_int (?Ly - ?qx)" using k by (simp only: pow2_int)
    finally have "fl x \<le> 2 powr of_int (?Ly - ?qx) * 2 powr of_int ?qx"
      unfolding fx by (simp add: mult_right_mono)
    also have "\<dots> = 2 powr of_int ?Ly" by (simp add: powr_add [symmetric])
    finally have a: "fl x \<le> 2 powr of_int ?Ly" .
    have "2 powr of_int ?Ly / 2 powr of_int ?qy \<le> y / 2 powr of_int ?qy"
      using ulpExp_bounds(1) [OF y] by (simp add: divide_right_mono)
    moreover have "(2::real) powr of_int ?Ly / 2 powr of_int ?qy = of_int (2 ^ 52)"
      by (simp add: powr_diff [symmetric] qy)
    ultimately have "rne (of_int (2 ^ 52)) \<le> rne (y / 2 powr of_int ?qy)"
      by (simp only: rne_mono)
    then have "2 ^ 52 \<le> rne (y / 2 powr of_int ?qy)" by (simp only: rne_of_int)
    then have "(of_int (2 ^ 52) :: real) \<le> of_int (rne (y / 2 powr of_int ?qy))"
      by (simp only: of_int_le_iff)
    then have "of_int (2 ^ 52) * 2 powr of_int ?qy \<le> fl y"
      unfolding fy by (simp add: mult_right_mono)
    moreover have "of_int (2 ^ 52) * 2 powr of_int ?qy = (2::real) powr of_int ?Ly"
      by (simp add: qy powr_diff)
    ultimately have b: "2 powr of_int ?Ly \<le> fl y" by simp
    from a b show ?thesis by simp
  qed
qed

lemma fl_minus: "fl (- x) = - fl x"
  by (simp add: fl_def ulpExp_def sgn_minus)

lemma fl_nonneg: "0 \<le> x \<Longrightarrow> 0 \<le> fl x"
proof -
  assume "0 \<le> x"
  have "rne 0 \<le> rne (\<bar>x\<bar> / 2 powr of_int (ulpExp x))" by (rule rne_mono) simp
  then have "0 \<le> rne (\<bar>x\<bar> / 2 powr of_int (ulpExp x))" using rne_of_int [of 0] by simp
  with \<open>0 \<le> x\<close> show ?thesis by (simp add: fl_def sgn_if)
qed

lemma fl_mono: "x \<le> y \<Longrightarrow> fl x \<le> fl y"
proof -
  assume xy: "x \<le> y"
  consider "0 < x" | "x \<le> 0" "0 \<le> y" | "y < 0" by linarith
  then show ?thesis
  proof cases
    case 1
    then show ?thesis using xy by (rule fl_pos_mono)
  next
    case 2
    from fl_nonneg [of "- x"] 2 have "fl x \<le> 0" by (simp add: fl_minus)
    with fl_nonneg [OF 2(2)] show ?thesis by simp
  next
    case 3
    with xy have "0 < - y" "- y \<le> - x" by simp_all
    from fl_pos_mono [OF this] show ?thesis by (simp add: fl_minus)
  qed
qed

lemma fl_eval:
  assumes "0 < x" and "2 powr of_int e \<le> x" and "x < 2 powr of_int (e + 1)"
  shows "fl x = of_int (rne (x / 2 powr of_int (max (e - 52) (- 1074)))) * 2 powr of_int (max (e - 52) (- 1074))"
proof -
  from assms have "\<lfloor>log 2 x\<rfloor> = e" by (simp add: floor_log_eq_powr_iff)
  with assms(1) show ?thesis by (simp add: fl_def ulpExp_def)
qed

lemma fl_zero: "fl 0 = 0"
  by (simp add: fl_def)

lemma fl_exact:
  assumes m: "0 < m" "m < 2 ^ 53" and k: "- 1074 \<le> k"
  shows "fl (of_int m * 2 powr of_int k) = of_int m * 2 powr of_int k"
proof -
  define x :: real where "x = of_int m * 2 powr of_int k"
  define q where "q = ulpExp x"
  have x: "0 < x" using m(1) by (simp add: x_def)
  have "(of_int m :: real) < of_int (2 ^ 53)" using m(2) by (simp only: of_int_less_iff)
  then have m53: "(of_int m :: real) < 2 powr 53" by simp
  have "2 powr of_int \<lfloor>log 2 x\<rfloor> \<le> x" by (rule ulpExp_bounds(1) [OF x])
  also have "x < 2 powr 53 * 2 powr of_int k"
    unfolding x_def using m53 by (intro mult_strict_right_mono) simp_all
  also have "\<dots> = 2 powr of_int (53 + k)" by (simp add: powr_add)
  finally have "\<lfloor>log 2 x\<rfloor> < 53 + k" by simp
  with k x have q: "q \<le> k" by (simp add: q_def ulpExp_def)
  from q have pw: "(2::real) powr of_int (k - q) = of_int (2 ^ nat (k - q))"
    by (intro pow2_int) simp
  have "x / 2 powr of_int q = of_int m * 2 powr of_int (k - q)"
    by (simp add: x_def powr_diff)
  also have "\<dots> = of_int (m * 2 ^ nat (k - q))" by (simp only: pw of_int_mult)
  finally have r: "rne (x / 2 powr of_int q) = m * 2 ^ nat (k - q)" by (simp only: rne_of_int)
  have "fl x = of_int (rne (x / 2 powr of_int q)) * 2 powr of_int q"
    using x by (simp add: fl_def q_def)
  also have "\<dots> = of_int m * (2 powr of_int (k - q) * 2 powr of_int q)"
    by (simp only: r pw of_int_mult mult.assoc)
  also have "\<dots> = x" by (simp add: x_def powr_add [symmetric])
  finally show ?thesis by (simp add: x_def)
qed

lemma fl_numeral: "numeral n < (2 ^ 53 :: int) \<Longrightarrow> fl (numeral n) = numeral n"
  using fl_exact [of "numeral n" 0] by simp

lemma fl_half: "fl (1 / 2) = 1 / 2"
  using fl_exact [of 1 "- 1"] by (simp add: powr_neg_numeral powr_minus)

lemma fl_quarter: "fl (1 / 4) = 1 / 4"
  using fl_exact [of 1 "- 2"] by (simp add: powr_neg_numeral)

lemma fl_fifth: "fl (1 / 5) = 3602879701896397 / 2 ^ 54"
  by (subst fl_eval [where e = "- 3"]) (simp_all add: rne_def powr_neg_numeral)

lemma fl_pow2: "fl (of_int m * 2 ^ n) = of_int m * 2 ^ n" if "0 < m" "m < 2 ^ 53"
  using fl_exact [of m "int n"] that by (simp add: powr_realpow)

lemma double_finite:
  assumes "\<bar>x\<bar> \<le> 3 * 2 ^ 1022"
  shows "double x = Some (fl x)"
proof -
  define B :: real where "B = of_int 3 * 2 ^ 1022"
  have flB: "fl B = B" unfolding B_def by (rule fl_pow2) simp_all
  from assms have "- B \<le> x" "x \<le> B" by (simp_all add: B_def)
  from fl_mono [OF this(1)] fl_mono [OF this(2)]
  have "\<bar>fl x\<bar> \<le> B" by (simp add: fl_minus flB)
  moreover have "B < 2 ^ 1024" by (simp add: B_def)
  ultimately show ?thesis by (simp add: double_def)
qed

text \<open>A rounding moves a number by at most half a unit in the last place.\<close>

lemma rne_half: "\<bar>of_int (rne t) - t\<bar> \<le> 1 / 2"
proof -
  have "of_int \<lfloor>t\<rfloor> \<le> t" "t < of_int \<lfloor>t\<rfloor> + 1" by linarith+
  then show ?thesis by (auto simp: rne_def Let_def)
qed

lemma fl_err: "\<bar>fl x - x\<bar> \<le> \<bar>x\<bar> / 2 ^ 53 + 1 / 2 ^ 1075"
proof (cases "x = 0")
  case True
  then show ?thesis by (simp add: fl_def)
next
  case False
  define a where "a = \<bar>x\<bar>"
  define u :: real where "u = 2 powr of_int (ulpExp x)"
  define t where "t = a / u"
  from False have a: "0 < a" by (simp add: a_def)
  have u: "0 < u" by (simp add: u_def)
  have x: "x = sgn x * a" by (simp add: a_def sgn_if)
  have "fl x = sgn x * (of_int (rne t) * u)" using False by (simp add: fl_def t_def a_def u_def)
  then have "fl x - x = sgn x * (of_int (rne t) * u - a)" using x by (simp add: algebra_simps)
  then have "\<bar>fl x - x\<bar> = \<bar>of_int (rne t) * u - a\<bar>" using False by (simp add: abs_mult abs_sgn_eq)
  also have "of_int (rne t) * u - a = (of_int (rne t) - t) * u" using u by (simp add: t_def algebra_simps)
  also have "\<bar>\<dots>\<bar> = \<bar>of_int (rne t) - t\<bar> * u" using u by (simp add: abs_mult)
  also have "\<dots> \<le> 1 / 2 * u" using rne_half [of t] u by (intro mult_right_mono) simp_all
  finally have e: "\<bar>fl x - x\<bar> \<le> u / 2" by simp
  have "u / 2 \<le> a / 2 ^ 53 + 1 / 2 ^ 1075"
  proof (cases "ulpExp x = - 1074")
    case True
    then have "u = 2 powr (- 1074)" by (simp add: u_def)
    also have "\<dots> = 1 / 2 ^ 1074" by (simp only: powr_neg_numeral)
    finally have "u / 2 = 1 / 2 ^ 1075" by simp
    with a show ?thesis by simp
  next
    case False
    then have q: "ulpExp x = \<lfloor>log 2 a\<rfloor> - 52" by (simp add: ulpExp_def a_def max_def split: if_splits)
    have "u = 2 powr of_int \<lfloor>log 2 a\<rfloor> / 2 powr 52" by (simp add: u_def q powr_diff)
    also have "\<dots> \<le> a / 2 powr 52" using ulpExp_bounds(1) [OF a] by (intro divide_right_mono) simp_all
    also have "\<dots> = a / 2 ^ 52" by simp
    finally have "u / 2 \<le> a / 2 ^ 53" by simp
    then show ?thesis by simp
  qed
  with e show ?thesis by (simp add: a_def)
qed

text \<open>The operations of \<^verbatim>\<open>getRandomDelay\<close> at the configurations of the concrete runs.\<close>

lemma dmul_Some: "dmul (Some x) (Some y) = double (x * y)"
  by (simp add: dmul_def)

lemma dsub_Some: "dsub (Some x) (Some y) = double (x - y)"
  by (simp add: dsub_def)

lemma dadd_Some: "dadd (Some x) (Some y) = double (x + y)"
  by (simp add: dadd_def)

lemma double_small: "\<bar>x\<bar> \<le> 2 ^ 53 \<Longrightarrow> double x = Some (fl x)"
  by (rule double_finite) simp

lemma double_zero: "double 0 = Some 0"
  by (simp add: double_small fl_zero)

lemma thousand: "fl (5000 * (3602879701896397 / 2 ^ 54)) = 1000"
  by (subst fl_eval [where e = 9]) (simp_all add: rne_def powr_neg_numeral)

lemma variation_5000: "fl (5000 * fl (1 / 5)) = 1000"
  by (simp only: fl_fifth thousand)

lemma fifth_bounds: "0 \<le> fl (1 / 5)" "fl (1 / 5) \<le> 1"
  by (simp_all add: fl_fifth)

lemma dmul_5000: "dmul (Some 5000) (Some (fl (1 / 5))) = Some 1000"
proof -
  from fifth_bounds have "\<bar>5000 * fl (1 / 5)\<bar> \<le> 2 ^ 53" by simp
  then show ?thesis by (simp only: dmul_Some double_small variation_5000)
qed

lemma delay_at_half:
  assumes "submissionDelay cfg = Some 5000" and "randomDelayVariation cfg = Some (fl (1 / 5))"
  shows "getRandomDelay cfg (1 / 2) = Some 5000"
proof -
  note dmul_5000
  moreover have "dsub (Some (1 / 2)) (Some (1 / 2)) = Some 0"
    by (simp add: dsub_Some double_zero)
  moreover have "dmul (Some 0) (Some 1000) = Some 0"
    by (simp add: dmul_Some double_zero)
  moreover have "dadd (Some 5000) (Some 0) = Some 5000"
    by (simp add: dadd_Some double_small fl_numeral)
  ultimately show ?thesis by (simp add: getRandomDelay_def Let_def assms)
qed

lemma delay_at_quarter: "getRandomDelay defaultConfig (1 / 4) = Some 4750"
proof -
  note dmul_5000
  moreover have "dsub (Some (1 / 4)) (Some (1 / 2)) = Some (- (1 / 4))"
    by (simp add: dsub_Some double_small fl_minus fl_quarter)
  moreover have "dmul (Some (- (1 / 4))) (Some 1000) = Some (- 250)"
    by (simp add: dmul_Some double_small fl_minus fl_numeral)
  moreover have "dadd (Some 5000) (Some (- 250)) = Some 4750"
    by (simp add: dadd_Some double_small fl_numeral)
  ultimately show ?thesis by (simp add: getRandomDelay_def Let_def defaultConfig_def)
qed

lemma interval_ends:
  "fl (5000 + fl (- (1 / 2) * fl (5000 * fl (1 / 5)))) = 4500"
  "fl (5000 + fl (1 / 2 * fl (5000 * fl (1 / 5)))) = 5500"
  by (simp_all add: variation_5000 fl_minus fl_numeral)

lemma thirteen_steps:
  "fl (13 * (3602879701896397 / 2 ^ 54)) = 5854679515581645 / 2 ^ 51"
  "fl (1 / 2 * (5854679515581645 / 2 ^ 51)) = 5854679515581645 / 2 ^ 52"
  "fl (13 - 5854679515581645 / 2 ^ 52) = 6586514455029350 / 2 ^ 49"
  by (subst fl_eval [where e = 1], simp_all add: rne_def powr_neg_numeral)
     (subst fl_eval [where e = 0], simp_all add: rne_def powr_neg_numeral,
      subst fl_eval [where e = 3], simp_all add: rne_def powr_neg_numeral)

lemma delay_thirteen: "getRandomDelay thirteen 0 = Some (6586514455029350 / 2 ^ 49)"
proof -
  define v :: real where "v = 3602879701896397 / 2 ^ 54"
  define V :: real where "V = 5854679515581645 / 2 ^ 51"
  define P :: real where "P = 5854679515581645 / 2 ^ 52"
  define D :: real where "D = 6586514455029350 / 2 ^ 49"
  have f5: "fl (1 / 5) = v" by (simp only: v_def fl_fifth)
  have fV: "fl (13 * v) = V" by (simp only: v_def V_def thirteen_steps)
  have fP: "fl (1 / 2 * V) = P" by (simp only: V_def P_def thirteen_steps)
  have fD: "fl (13 - P) = D" by (simp only: P_def D_def thirteen_steps)
  have "\<bar>13 * v\<bar> \<le> 2 ^ 53" by (simp add: v_def)
  then have 1: "dmul (Some 13) (Some v) = Some V" by (simp only: dmul_Some double_small fV)
  have "dsub (Some 0) (Some (1 / 2)) = double (- (1 / 2))" by (simp add: dsub_Some)
  also have "\<dots> = Some (- (1 / 2))" by (simp add: double_small fl_minus fl_half)
  finally have 2: "dsub (Some 0) (Some (1 / 2)) = Some (- (1 / 2))" .
  have "\<bar>- (1 / 2 * V)\<bar> \<le> 2 ^ 53" by (simp add: V_def)
  then have "double (- (1 / 2 * V)) = Some (- P)" by (simp only: double_small fl_minus fP)
  moreover have "- (1 / 2) * V = - (1 / 2 * V)" by simp
  ultimately have 3: "dmul (Some (- (1 / 2))) (Some V) = Some (- P)"
    by (simp only: dmul_Some)
  have "\<bar>13 - P\<bar> \<le> 2 ^ 53" by (simp add: P_def)
  then have "double (13 - P) = Some D" by (simp only: double_small fD)
  moreover have "13 + - P = 13 - P" by simp
  ultimately have 4: "dadd (Some 13) (Some (- P)) = Some D" by (simp only: dadd_Some)
  have "getRandomDelay thirteen 0 =
      dadd (Some 13) (dmul (dsub (Some 0) (Some (1 / 2))) (dmul (Some 13) (Some (fl (1 / 5)))))"
    by (simp add: getRandomDelay_def Let_def thirteen_def defaultConfig_def)
  also have "\<dots> = Some D" by (simp only: f5 1 2 3 4)
  finally show ?thesis by (simp only: D_def)
qed

subsection \<open>Evaluating the concrete runs\<close>

lemma quiet_sel:
  "nav quiet = None" "fill quiet = None" "submit quiet = None" "page quiet = accepted"
  "reload quiet = None" "rnd quiet = 1 / 2" "halt quiet = False"
  by (simp_all add: quiet_def)

lemma refused_sel:
  "nav refused = None" "fill refused = None" "submit refused = None" "page refused = rejected"
  "reload refused = None" "rnd refused = 1 / 2" "halt refused = False"
  by (simp_all add: refused_def quiet_def)

lemma config_sel:
  "maxRetries defaultConfig = 3" "submissionDelay defaultConfig = Some 5000"
  "randomDelayVariation defaultConfig = Some (fl (1 / 5))"
  "maxRetries oneRetry = 1" "submissionDelay oneRetry = Some 5000"
  "randomDelayVariation oneRetry = Some (fl (1 / 5))" "url oneRetry = url defaultConfig"
  by (simp_all add: defaultConfig_def oneRetry_def)

lemma timer_5000: "timerDelay (Some 5000) = 5000"
  by (simp add: timerDelay_def)

lemma attempt_halt: "attempt cfg (e\<lparr>halt := h\<rparr>) = attempt cfg e"
  by (simp add: attempt_def split: option.splits)

lemma attempt_quiet: "attempt cfg quiet = Returned"
  by (simp add: attempt_def quiet_sel waitForSubmissionSuccess_def detect_def accepted_def)

lemma rejected_fails:
  "waitForSubmissionSuccess defaultConfig rejected = Threw (utf16 ''Form validation error: Invalid email'')"
  by (simp add: waitForSubmissionSuccess_def detect_def rejected_def defaultConfig_def
      lastSegment_def formCleared_def errorText_def trim_def isSpace_def utf16_def)

lemma wait_url: "url cfg = url cfg' \<Longrightarrow> waitForSubmissionSuccess cfg p = waitForSubmissionSuccess cfg' p"
  by (simp add: waitForSubmissionSuccess_def detect_def)

lemma attempt_refused:
  "attempt defaultConfig refused = Threw (utf16 ''Form validation error: Invalid email'')"
  "attempt oneRetry refused = Threw (utf16 ''Form validation error: Invalid email'')"
  using wait_url [of oneRetry defaultConfig rejected]
  by (simp_all add: attempt_def refused_sel rejected_fails config_sel)

lemmas run_simps =
  startAutomation_def processRecord_def pace_def run_loop.simps retry_loop.simps
  delay_at_half timer_5000 sleep_def script_def Let_def newEngine_def started_def
  quiet_sel refused_sel config_sel attempt_halt attempt_quiet attempt_refused

lemma scenario_run:
  "startAutomation scenario three 0 (newEngine oneRetry) = Some (Returned, scenarioEnd)"
  by (simp add: run_simps scenario_def scenarioEnd_def three_def)



lemma script_quiet: "list_all (\<lambda>e. \<not> halt e) xs \<Longrightarrow> \<not> halt (script xs n)"
  by (simp add: script_def quiet_sel list_all_length)

lemma scenario_quiet: "\<forall>n. \<not> halt (scenario n)"
  unfolding scenario_def by (intro allI script_quiet) (simp add: quiet_sel refused_sel)





subsection \<open>Uninterrupted runs\<close>

lemma retry_loop_quiet:
  assumes "\<forall>n. \<not> halt (env n)"
  shows "isRunning w \<Longrightarrow> retry_loop env rc w = (Returned, w') \<Longrightarrow>
         isRunning w' \<and> records w' = records w \<and> config w' = config w \<and>
         entries w' + currentIndex w = entries w + currentIndex w' \<and>
         currentIndex w \<le> currentIndex w' \<and> currentIndex w' \<le> currentIndex w + 1"
proof (induction rc w rule: retry_loop_induct [where env = env])
  case (step rc w)
  show ?case
  proof (cases rule: retry_loop_cases [where rc = rc and w = w and env = env])
    case exit
    with step.prems show ?thesis by (simp add: retry_loop_exit)
  next
    case success
    with step.prems assms show ?thesis by (auto simp: retry_loop_success entries_def)
  next
    case (again msg)
    with step.prems assms step.IH [OF again] show ?thesis
      by (simp add: retry_loop_again entries_def)
  next
    case (reload_throws msg m)
    with step.prems show ?thesis by (simp add: retry_loop_reload_throws)
  next
    case (exhausted msg)
    with step.prems assms show ?thesis by (auto simp: retry_loop_exhausted entries_def)
  qed
qed

lemma pace_quiet:
  "\<forall>n. \<not> halt (env n) \<Longrightarrow> isRunning w \<Longrightarrow>
     isRunning (pace env w) \<and> records (pace env w) = records w \<and> config (pace env w) = config w \<and>
     entries (pace env w) = entries w \<and> currentIndex (pace env w) = currentIndex w"
  by (simp add: pace_def Let_def entries_def)

lemma processRecord_quiet:
  assumes "\<forall>n. \<not> halt (env n)" and "isRunning w"
    and "processRecord env w = (Returned, w')"
  shows "isRunning w' \<and> records w' = records w \<and> config w' = config w \<and>
         entries w' + currentIndex w = entries w + currentIndex w' \<and>
         currentIndex w \<le> currentIndex w' \<and> currentIndex w' \<le> currentIndex w + 1"
proof -
  obtain c v where r: "retry_loop env 0 w = (c, v)" by (cases "retry_loop env 0 w")
  with assms(3) have c: "c = Returned" and w': "w' = pace env v"
    by (auto simp: processRecord_def split: if_splits completion.splits)
  from retry_loop_quiet [OF assms(1,2) r [unfolded c]] pace_quiet [OF assms(1), of v]
  show ?thesis by (simp add: w')
qed

lemma run_loop_quiet_aux:
  assumes "run_loop env w = Some y"
  shows "(\<forall>n. \<not> halt (env n)) \<Longrightarrow> isRunning w \<Longrightarrow> fst y = Returned \<Longrightarrow>
     currentIndex w \<le> length (records w) \<Longrightarrow>
     records (snd y) = records w \<and> currentIndex (snd y) = length (records w) \<and>
     entries (snd y) + currentIndex w = entries w + currentIndex (snd y)"
  using assms
proof (induction env w y rule: run_loop_induct)
  case (step f env w y)
  show ?case
  proof (cases "isRunning w \<and> currentIndex w < length (records w)")
    case False
    with step.prems step.hyps show ?thesis by auto
  next
    case True
    obtain c1 w1 where p: "processRecord env w = (c1, w1)" by (cases "processRecord env w")
    show ?thesis
    proof (cases c1)
      case Returned
      with True p step.hyps have f: "f env w1 = Some y" by simp
      from processRecord_quiet [OF step.prems(1,2) p [unfolded Returned]]
      have q: "isRunning w1" "records w1 = records w" 
         "entries w1 + currentIndex w = entries w + currentIndex w1"
         "currentIndex w \<le> currentIndex w1" "currentIndex w1 \<le> currentIndex w + 1"
        by simp_all
      from True q have le: "currentIndex w1 \<le> length (records w1)" by simp
      from step.IH [OF f step.prems(1) q(1) step.prems(3) le] q show ?thesis by simp
    next
      case (Threw m)
      with True p step.hyps have "y = (Threw m, w1)" by simp
      with step.prems(3) show ?thesis by simp
    qed
  qed
qed

lemma startAutomation_unfold:
  assumes "startAutomation env recs k w = Some (c, w')" and "nav (env (tick w)) = None"
    and "c \<noteq> Threw (utf16 ''Automation is already running'')"
  shows "\<exists>w1 v. run_loop env w1 = Some (c, v) \<and> w' = v\<lparr>isRunning := False\<rparr> \<and>
    isRunning w1 = (\<not> halt (env (tick w))) \<and> currentIndex w1 = k \<and> records w1 = recs \<and>
    results w1 = \<lparr>successful = [], failed = [], retries = 0\<rparr> \<and> config w1 = config w"
proof -
  define w1 where "w1 = (w\<lparr>records := recs, currentIndex := k, isRunning := True,
                    results := \<lparr>successful = [], failed = [], retries = 0\<rparr>\<rparr>)
                  \<lparr>tick := tick w + 1, isRunning := \<not> halt (env (tick w))\<rparr>"
  from assms have "\<exists>v. run_loop env w1 = Some (c, v) \<and> w' = v\<lparr>isRunning := False\<rparr>"
    by (auto simp: startAutomation_def Let_def w1_def split: if_splits option.splits)
  moreover have "isRunning w1 = (\<not> halt (env (tick w)))" "currentIndex w1 = k" "records w1 = recs"
    "results w1 = \<lparr>successful = [], failed = [], retries = 0\<rparr>" "config w1 = config w"
    by (simp_all add: w1_def)
  ultimately show ?thesis by blast
qed

text \<open>
  Claim C1. If \<^verbatim>\<open>startAutomation(records, 0)\<close> returns normally (the navigation to the
  form did not fail and no error left the loop) and nobody calls \<^verbatim>\<open>stop()\<close> or
  \<^verbatim>\<open>pause()\<close> during the run, then at the end
  \<^verbatim>\<open>results.successful.length + results.failed.length\<close> is \<^verbatim>\<open>records.length\<close> and
  \<^verbatim>\<open>currentIndex\<close> is \<^verbatim>\<open>records.length\<close>. This holds for every list of records, the
  non-empty ones included.
\<close>

theorem run_processes_every_record:
  assumes "startAutomation env recs 0 w = Some (Returned, w')" and "\<forall>n. \<not> halt (env n)"
  shows "length (successful (results w')) + length (failed (results w')) = length recs \<and>
         currentIndex w' = length recs"
proof -
  from assms have nav: "nav (env (tick w)) = None"
    by (auto simp: startAutomation_def Let_def split: if_splits option.splits)
  from startAutomation_unfold [OF assms(1) nav]
  obtain w1 v where v: "run_loop env w1 = Some (Returned, v)"
    and w': "w' = v\<lparr>isRunning := False\<rparr>"
    and w1: "isRunning w1 = (\<not> halt (env (tick w)))" "currentIndex w1 = 0" "records w1 = recs"
      "results w1 = \<lparr>successful = [], failed = [], retries = 0\<rparr>"
    by auto
  from run_loop_quiet_aux [OF v assms(2)] w1 assms(2)
  have "records v = recs \<and> currentIndex v = length recs \<and> entries v = currentIndex v"
    by (simp add: entries_def)
  then show ?thesis by (simp add: w' entries_def)
qed

theorem run_processes_every_record_witness:
  "startAutomation scenario three 0 (newEngine oneRetry) = Some (Returned, scenarioEnd) \<and>
   (\<forall>n. \<not> halt (scenario n)) \<and>
   length (successful (results scenarioEnd)) + length (failed (results scenarioEnd)) = length three \<and>
   currentIndex scenarioEnd = length three"
  using run_processes_every_record [OF scenario_run scenario_quiet] scenario_run scenario_quiet
  by simp

text \<open>With \<open>maxRetries \<ge> 0\<close> every run returns: each call of \<^verbatim>\<open>processRecord\<close> throws, sees the
  run stopped or moves to the next record.\<close>

lemma retry_loop_progress:
  "isRunning w \<Longrightarrow> int rc \<le> maxRetries (config w) \<Longrightarrow> retry_loop env rc w = (Returned, v) \<Longrightarrow>
     records v = records w \<and> config v = config w \<and>
     (\<not> isRunning v \<or> currentIndex v = currentIndex w + 1)"
proof (induction rc w rule: retry_loop_induct [where env = env])
  case (step rc w)
  show ?case
  proof (cases rule: retry_loop_cases [where rc = rc and w = w and env = env])
    case exit
    with step.prems show ?thesis by simp
  next
    case success
    with step.prems show ?thesis by (auto simp: retry_loop_success)
  next
    case (again msg)
    let ?w2 = "w\<lparr>tick := tick w + 1, isRunning := \<not> halt (env (tick w)),
                  results := (results w)\<lparr>retries := retries (results w) + 1\<rparr>\<rparr>"
    from again step.prems have eq: "retry_loop env (rc + 1) ?w2 = (Returned, v)"
      by (simp add: retry_loop_again)
    show ?thesis
    proof (cases "halt (env (tick w))")
      case True
      then have "retry_loop env (rc + 1) ?w2 = (Returned, ?w2)"
        by (simp add: retry_loop_exit)
      with eq have "v = ?w2" by simp
      with True show ?thesis by simp
    next
      case False
      with again eq step.IH [OF again] show ?thesis by simp
    qed
  next
    case (reload_throws msg m)
    with step.prems show ?thesis by (simp add: retry_loop_reload_throws)
  next
    case (exhausted msg)
    with step.prems show ?thesis by (auto simp: retry_loop_exhausted)
  qed
qed

lemma processRecord_progress:
  assumes "isRunning w" and "currentIndex w < length (records w)" and "0 \<le> maxRetries (config w)"
    and "processRecord env w = (Returned, v)"
  shows "records v = records w \<and> config v = config w \<and>
     (\<not> isRunning v \<or> currentIndex v = currentIndex w + 1)"
proof -
  obtain c u where r: "retry_loop env 0 w = (c, u)" by (cases "retry_loop env 0 w")
  with assms(2,4) have c: "c = Returned" and v: "v = pace env u"
    by (auto simp: processRecord_def split: completion.splits)
  from assms(3) have "int 0 \<le> maxRetries (config w)" by simp
  from retry_loop_progress [OF assms(1) this r [unfolded c]] pace_frame [of env u]
  show ?thesis by (auto simp: v)
qed

lemma run_loop_terminates:
  "0 \<le> maxRetries (config w) \<Longrightarrow> \<exists>y. run_loop env w = Some y"
proof (induction "length (records w) - currentIndex w" arbitrary: w rule: less_induct)
  case less
  show ?case
  proof (cases "isRunning w \<and> currentIndex w < length (records w)")
    case False
    then show ?thesis by (subst run_loop.simps) auto
  next
    case True
    obtain c v where p: "processRecord env w = (c, v)" by (cases "processRecord env w")
    show ?thesis
    proof (cases c)
      case (Threw m)
      with True p show ?thesis by (subst run_loop.simps) simp
    next
      case Returned
      with True p have eq: "run_loop env w = run_loop env v"
        by (subst run_loop.simps) simp
      from processRecord_progress [OF _ _ less.prems p [unfolded Returned]] True
      have q: "records v = records w" "config v = config w"
        "\<not> isRunning v \<or> currentIndex v = currentIndex w + 1" by simp_all
      show ?thesis
      proof (cases "isRunning v")
        case False
        then have "run_loop env v = Some (Returned, v)" by (subst run_loop.simps) simp
        with eq show ?thesis by simp
      next
        case r: True
        with q True have "length (records v) - currentIndex v < length (records w) - currentIndex w"
          by auto
        from less.hyps [OF this] q less.prems eq show ?thesis by simp
      qed
    qed
  qed
qed

lemma startAutomation_terminates:
  assumes "0 \<le> maxRetries (config w)"
  shows "\<exists>y. startAutomation env recs k w = Some y"
proof (cases "isRunning w \<or> nav (env (tick w)) \<noteq> None")
  case True
  then show ?thesis by (auto simp: startAutomation_def Let_def)
next
  case False
  define w1 where "w1 = (w\<lparr>records := recs, currentIndex := k, isRunning := True,
                    results := \<lparr>successful = [], failed = [], retries = 0\<rparr>\<rparr>)
                  \<lparr>tick := tick w + 1, isRunning := \<not> halt (env (tick w))\<rparr>"
  from assms have "0 \<le> maxRetries (config w1)" by (simp add: w1_def)
  from run_loop_terminates [OF this, of env] obtain c v where "run_loop env w1 = Some (c, v)" by auto
  with False show ?thesis
    unfolding startAutomation_def Let_def by (simp add: w1_def)
qed

subsection \<open>Attempt counts\<close>

lemma retry_loop_all_fail:
  "isRunning w \<Longrightarrow> int rc \<le> maxRetries (config w) \<Longrightarrow>
   (\<forall>k. int (rc + k) \<le> maxRetries (config w) \<longrightarrow> attempt (config w) (env (tick w + k)) \<noteq> Returned) \<Longrightarrow>
   (\<forall>k. int (rc + k) < maxRetries (config w) \<longrightarrow>
        \<not> halt (env (tick w + k)) \<and> reload (env (tick w + k)) = None) \<Longrightarrow>
   \<exists>msg v. retry_loop env rc w = (Returned, v) \<and>
      attempt (config w) (env (tick w + nat (maxRetries (config w) - int rc))) = Threw msg \<and>
      successful (results v) = successful (results w) \<and>
      failed (results v) = failed (results w) @
        [\<lparr>index = currentIndex w, record_val = records w ! currentIndex w,
          attempts = nat (maxRetries (config w) + 1), error = msg\<rparr>] \<and>
      currentIndex v = currentIndex w + 1 \<and> records v = records w"
proof (induction rc w rule: retry_loop_induct [where env = env])
  case (step rc w)
  from step.prems(3) [rule_format, of 0] step.prems(2)
  have nr: "attempt (config w) (env (tick w)) \<noteq> Returned" by simp
  show ?case
  proof (cases rule: retry_loop_cases [where rc = rc and w = w and env = env])
    case exit
    with step.prems(1,2) show ?thesis by simp
  next
    case success
    with nr show ?thesis by simp
  next
    case (again msg)
    let ?w2 = "w\<lparr>tick := tick w + 1, isRunning := \<not> halt (env (tick w)),
                  results := (results w)\<lparr>retries := retries (results w) + 1\<rparr>\<rparr>"
    from step.prems(4) [rule_format, of 0] again(3) have run: "isRunning ?w2" by simp
    from again(3) have le: "int (rc + 1) \<le> maxRetries (config ?w2)" by simp
    have a3: "\<forall>k. int (rc + 1 + k) \<le> maxRetries (config ?w2) \<longrightarrow>
                attempt (config ?w2) (env (tick ?w2 + k)) \<noteq> Returned"
      using step.prems(3) [rule_format, of "Suc k" for k] by simp
    have a4: "\<forall>k. int (rc + 1 + k) < maxRetries (config ?w2) \<longrightarrow>
                \<not> halt (env (tick ?w2 + k)) \<and> reload (env (tick ?w2 + k)) = None"
      using step.prems(4) [rule_format, of "Suc k" for k] by simp
    from again(3) have t: "tick ?w2 + nat (maxRetries (config ?w2) - int (rc + 1)) =
        tick w + nat (maxRetries (config w) - int rc)" by simp
    from step.IH [OF again run le a3 a4] obtain m v where
      att: "attempt (config ?w2) (env (tick ?w2 + nat (maxRetries (config ?w2) - int (rc + 1)))) = Threw m"
      and rest: "retry_loop env (rc + 1) ?w2 = (Returned, v)"
      "successful (results v) = successful (results ?w2)"
      "failed (results v) = failed (results ?w2) @
        [\<lparr>index = currentIndex ?w2, record_val = records ?w2 ! currentIndex ?w2,
          attempts = nat (maxRetries (config ?w2) + 1), error = m\<rparr>]"
      "currentIndex v = currentIndex ?w2 + 1" "records v = records ?w2"
      by blast
    from att have "attempt (config w) (env (tick w + nat (maxRetries (config w) - int rc))) = Threw m"
      unfolding t by simp
    with again rest show ?thesis by (simp add: retry_loop_again)
  next
    case (reload_throws msg m)
    with step.prems(4) [rule_format, of 0] show ?thesis by simp
  next
    case (exhausted msg)
    with step.prems(2) have "maxRetries (config w) = int rc" by simp
    with exhausted show ?thesis by (simp add: retry_loop_exhausted nat_add_distrib)
  qed
qed

text \<open>
  Claim C2. When \<^verbatim>\<open>processRecord\<close> starts on a record (the engine is running, with
  \<open>maxRetries \<ge> 0\<close>) and the first attempt succeeds, the entry appended to
  \<^verbatim>\<open>results.successful\<close> has \<open>attempts = 1\<close>. When the record exhausts its retries
  (each of its \<open>maxRetries + 1\<close> attempts fails, and until the last attempt the page
  reloads and nobody stops the run), the entry appended to \<^verbatim>\<open>results.failed\<close> has
  \<open>attempts = maxRetries + 1\<close> and carries the message of the error of the last attempt.
\<close>

theorem attempts_recorded:
  assumes run: "isRunning w" and idx: "currentIndex w < length (records w)"
    and mr: "0 \<le> maxRetries (config w)"
  shows "(attempt (config w) (env (tick w)) = Returned \<longrightarrow>
            successful (results (snd (processRecord env w))) = successful (results w) @
              [\<lparr>index = currentIndex w, record_val = records w ! currentIndex w, attempts = 1\<rparr>]) \<and>
         ((\<forall>k \<le> nat (maxRetries (config w)). attempt (config w) (env (tick w + k)) \<noteq> Returned) \<and>
          (\<forall>k < nat (maxRetries (config w)).
              \<not> halt (env (tick w + k)) \<and> reload (env (tick w + k)) = None) \<longrightarrow>
            (\<exists>msg n. attempt (config w) (env (tick w + nat (maxRetries (config w)))) = Threw msg \<and>
               int n = maxRetries (config w) + 1 \<and>
               failed (results (snd (processRecord env w))) = failed (results w) @
                 [\<lparr>index = currentIndex w, record_val = records w ! currentIndex w,
                   attempts = n, error = msg\<rparr>]))"
proof (intro conjI impI)
  assume "attempt (config w) (env (tick w)) = Returned"
  with run mr idx show "successful (results (snd (processRecord env w))) = successful (results w) @
      [\<lparr>index = currentIndex w, record_val = records w ! currentIndex w, attempts = 1\<rparr>]"
    using pace_frame by (simp add: processRecord_def retry_loop_success)
next
  assume a: "(\<forall>k \<le> nat (maxRetries (config w)). attempt (config w) (env (tick w + k)) \<noteq> Returned) \<and>
          (\<forall>k < nat (maxRetries (config w)).
              \<not> halt (env (tick w + k)) \<and> reload (env (tick w + k)) = None)"
  from mr have le: "int 0 \<le> maxRetries (config w)" by simp
  from a mr have a3: "\<forall>k. int (0 + k) \<le> maxRetries (config w) \<longrightarrow>
      attempt (config w) (env (tick w + k)) \<noteq> Returned" by (auto simp: le_nat_iff)
  from a mr have a4: "\<forall>k. int (0 + k) < maxRetries (config w) \<longrightarrow>
        \<not> halt (env (tick w + k)) \<and> reload (env (tick w + k)) = None"
    by (auto simp: zless_nat_eq_int_zless)
  from retry_loop_all_fail [OF run le a3 a4] obtain msg v where
    r: "retry_loop env 0 w = (Returned, v)"
    and m: "attempt (config w) (env (tick w + nat (maxRetries (config w)))) = Threw msg"
    and f: "failed (results v) = failed (results w) @
        [\<lparr>index = currentIndex w, record_val = records w ! currentIndex w,
          attempts = nat (maxRetries (config w) + 1), error = msg\<rparr>]"
    by auto
  from r idx have "failed (results (snd (processRecord env w))) = failed (results v)"
    using pace_frame by (simp add: processRecord_def)
  with m f mr show "\<exists>msg n. attempt (config w) (env (tick w + nat (maxRetries (config w)))) = Threw msg \<and>
               int n = maxRetries (config w) + 1 \<and>
               failed (results (snd (processRecord env w))) = failed (results w) @
                 [\<lparr>index = currentIndex w, record_val = records w ! currentIndex w,
                   attempts = n, error = msg\<rparr>]"
    by (intro exI [of _ msg] exI [of _ "nat (maxRetries (config w) + 1)"]) simp
qed

theorem attempts_recorded_witness:
  "attempt (config firstOfThree) (scenario (tick firstOfThree)) = Returned \<and>
   successful (results (snd (processRecord scenario firstOfThree))) =
     [\<lparr>index = 0, record_val = [(utf16 ''First Name'', utf16 ''Ada'')], attempts = 1\<rparr>] \<and>
   attempt (config lastOfThree) (scenario (tick lastOfThree)) =
     Threw (utf16 ''Form validation error: Invalid email'') \<and>
   attempt (config lastOfThree) (scenario (tick lastOfThree + 1)) =
     Threw (utf16 ''Form validation error: Invalid email'') \<and>
   maxRetries (config lastOfThree) = 1 \<and>
   failed (results (snd (processRecord scenario lastOfThree))) =
     [\<lparr>index = 2, record_val = [(utf16 ''First Name'', utf16 ''Cy'')], attempts = 2,
       error = utf16 ''Form validation error: Invalid email''\<rparr>]"
proof -
  have a: "isRunning firstOfThree" "currentIndex firstOfThree < length (records firstOfThree)"
    "0 \<le> maxRetries (config firstOfThree)"
    by (simp_all add: firstOfThree_def started_def newEngine_def three_def config_sel)
  have a1: "attempt (config firstOfThree) (scenario (tick firstOfThree)) = Returned"
    by (simp add: firstOfThree_def started_def newEngine_def scenario_def script_def attempt_quiet)
  have b: "isRunning lastOfThree" "currentIndex lastOfThree < length (records lastOfThree)"
    "0 \<le> maxRetries (config lastOfThree)"
    by (simp_all add: lastOfThree_def started_def newEngine_def three_def config_sel)
  have m: "maxRetries (config lastOfThree) = 1" "tick lastOfThree = 6" "config lastOfThree = oneRetry"
    by (simp_all add: lastOfThree_def started_def newEngine_def config_sel)
  have s: "scenario 6 = refused" "scenario 7 = refused"
    by (simp_all add: scenario_def script_def)
  have b1: "(\<forall>k \<le> nat (maxRetries (config lastOfThree)).
              attempt (config lastOfThree) (scenario (tick lastOfThree + k)) \<noteq> Returned) \<and>
          (\<forall>k < nat (maxRetries (config lastOfThree)).
              \<not> halt (scenario (tick lastOfThree + k)) \<and> reload (scenario (tick lastOfThree + k)) = None)"
  proof (rule conjI; intro allI impI)
    fix k
    assume "k \<le> nat (maxRetries (config lastOfThree))"
    with m(1) have "k = 0 \<or> k = 1" by auto
    then show "attempt (config lastOfThree) (scenario (tick lastOfThree + k)) \<noteq> Returned"
      by (auto simp: m(2,3) s attempt_refused)
  next
    fix k
    assume "k < nat (maxRetries (config lastOfThree))"
    with m(1) have "k = 0" by auto
    then show "\<not> halt (scenario (tick lastOfThree + k)) \<and>
        reload (scenario (tick lastOfThree + k)) = None"
      by (simp add: m(2) s refused_sel)
  qed
  from attempts_recorded [OF a, of scenario, THEN conjunct1, rule_format, OF a1]
  have A: "successful (results (snd (processRecord scenario firstOfThree))) =
     [\<lparr>index = 0, record_val = [(utf16 ''First Name'', utf16 ''Ada'')], attempts = 1\<rparr>]"
    by (simp add: firstOfThree_def started_def newEngine_def three_def)
  have l: "attempt (config lastOfThree)
              (scenario (tick lastOfThree + nat (maxRetries (config lastOfThree)))) =
            Threw (utf16 ''Form validation error: Invalid email'')"
    by (simp only: m(1)) (simp add: m(2,3) s attempt_refused)
  have f: "failed (results lastOfThree) = []" "currentIndex lastOfThree = 2"
    "records lastOfThree ! currentIndex lastOfThree = [(utf16 ''First Name'', utf16 ''Cy'')]"
    by (simp_all add: lastOfThree_def started_def newEngine_def three_def)
  from attempts_recorded [OF b, of scenario, THEN conjunct2, rule_format, OF b1]
  obtain msg n where t:
    "attempt (config lastOfThree)
       (scenario (tick lastOfThree + nat (maxRetries (config lastOfThree)))) = Threw msg"
    "int n = maxRetries (config lastOfThree) + 1"
    "failed (results (snd (processRecord scenario lastOfThree))) = failed (results lastOfThree) @
       [\<lparr>index = currentIndex lastOfThree,
         record_val = records lastOfThree ! currentIndex lastOfThree,
         attempts = n, error = msg\<rparr>]"
    by blast
  from t(1) l have "msg = utf16 ''Form validation error: Invalid email''" by simp
  moreover from t(2) m(1) have "n = 2" by simp
  ultimately have B: "failed (results (snd (processRecord scenario lastOfThree))) =
     [\<lparr>index = 2, record_val = [(utf16 ''First Name'', utf16 ''Cy'')], attempts = 2,
       error = utf16 ''Form validation error: Invalid email''\<rparr>]"
    using t(3) f by simp
  have e: "attempt (config lastOfThree) (scenario (tick lastOfThree)) =
     Threw (utf16 ''Form validation error: Invalid email'')"
    "attempt (config lastOfThree) (scenario (tick lastOfThree + 1)) =
     Threw (utf16 ''Form validation error: Invalid email'')"
    by (simp_all add: m(2,3) s attempt_refused)
  from a1 A B m(1) e show ?thesis by simp
qed

subsection \<open>Success detection\<close>

text \<open>White space beyond ASCII is trimmed too: an error marker or an input that holds
  only a no-break space (and an em space) has no text.\<close>

lemma trim_no_break_space:
  "trim [0xA0] = []" "errorText [[0xA0], [0x20, 0xFEFF]] = []" "formCleared [[0xA0, 0x2003]]"
  by (simp_all add: trim_def isSpace_def errorText_def formCleared_def)





text \<open>
  Claim C8: without error markers, success markers or a change of URL, the form-cleared
  check yields success exactly when all previously filled fields are empty. The code
  computes the check with \<^verbatim>\<open>some\<close>, not \<^verbatim>\<open>every\<close>: on such a page with the inputs "Ada"
  and "" the check fires although the first field is still filled. With a validation
  error on the same page, the check makes the attempt a success.
\<close>

theorem formCleared_on_one_empty_field:
  "successIndicators partlyFilled = Inr 0 \<and> errorElements partlyFilled = Inr [] \<and>
   str_includes (page_url partlyFilled) (lastSegment (url defaultConfig)) \<and>
   inputs partlyFilled = Inr [utf16 ''Ada'', []] \<and> trim (utf16 ''Ada'') \<noteq> [] \<and>
   formCleared [utf16 ''Ada'', []] \<and>
   inputs oneFieldEmpty = Inr [utf16 ''Ada'', []] \<and>
   errorElements oneFieldEmpty = Inr [utf16 '' Invalid email ''] \<and>
   errorText [utf16 '' Invalid email ''] = utf16 ''Invalid email'' \<and>
   waitForSubmissionSuccess defaultConfig oneFieldEmpty = Returned"
  by (simp add: formCleared_def trim_def isSpace_def utf16_def partlyFilled_def oneFieldEmpty_def
      rejected_def errorText_def waitForSubmissionSuccess_def detect_def defaultConfig_def
      lastSegment_def)

subsection \<open>The three-record scenario\<close>

text \<open>
  Claim C4, as the code has it. In the scenario of three records with
  \<open>maxRetries = 1\<close> (record 1 accepted at once, record 2 refused once and then accepted,
  record 3 refused twice) the run ends with 2 successful records, 1 failed record,
  \<open>currentIndex = 3\<close> and \<open>retries = 3\<close>: the counter counts every failed attempt, one of
  record 2 and two of record 3.
\<close>

theorem three_records_scenario:
  "startAutomation scenario three 0 (newEngine oneRetry) = Some (Returned, scenarioEnd) \<and>
   length (successful (results scenarioEnd)) = 2 \<and> length (failed (results scenarioEnd)) = 1 \<and>
   retries (results scenarioEnd) = 3 \<and> currentIndex scenarioEnd = 3"
  using scenario_run by (simp add: scenarioEnd_def)

text \<open>The scenario does not end with \<open>retries = 1\<close>.\<close>

theorem three_records_retries_counterexample:
  "startAutomation scenario three 0 (newEngine oneRetry) = Some (Returned, scenarioEnd) \<and>
   retries (results scenarioEnd) \<noteq> 1"
  using scenario_run by (simp add: scenarioEnd_def)

subsection \<open>Stopping a run\<close>




text \<open>The timer of a delay: truncated, and 1 ms when the delay is out of range or not a
  number.\<close>

lemma timerDelay_examples:
  "timerDelay (Some (9501 / 2)) = 4750" "timerDelay (Some 3000000000) = 1"
  "timerDelay (Some (1 / 2)) = 1" "timerDelay (Some (- 5)) = 1" "timerDelay None = 1"
  by (simp_all add: timerDelay_def)








text \<open>\<^verbatim>\<open>resume()\<close> sets the flag and then calls \<^verbatim>\<open>startAutomation\<close>, which finds the flag set.\<close>

lemma resume_throws:
  "\<not> isRunning w \<Longrightarrow> records w \<noteq> [] \<Longrightarrow>
     resume env w = Some (Threw (utf16 ''Automation is already running''), w\<lparr>isRunning := True\<rparr>)"
  by (simp add: resume_def startAutomation_def)

subsection \<open>Pacing delay\<close>

text \<open>
  Claim C7, as the code has it. For every base delay from 0 to \<open>2 ^ 1023\<close>, every
  \<^verbatim>\<open>randomDelayVariation\<close> in \<open>[0, 1]\<close> and every value in \<open>[0, 1]\<close> of the random source,
  \<^verbatim>\<open>getRandomDelay()\<close> returns a finite number between
  \<open>fl (base + fl (- 1/2 * fl (base * variation)))\<close> and
  \<open>fl (base + fl (1/2 * fl (base * variation)))\<close>: the ends \<open>base - base * variation / 2\<close>
  and \<open>base + base * variation / 2\<close> of the interval as the code's own double arithmetic
  computes them, every operation rounded. They are the values returned for the random
  values 0 and 1. The number lies in the interval
  \<open>[base * (1 - variation / 2), base * (1 + variation / 2)]\<close> up to the rounding: a
  relative error of \<open>1 / 2 ^ 50\<close> and an absolute error of \<open>1 / 2 ^ 1073\<close>.
\<close>

theorem getRandomDelay_between:
  assumes b: "submissionDelay cfg = Some b" "0 \<le> b" "b \<le> 2 ^ 1023"
    and v: "randomDelayVariation cfg = Some v" "0 \<le> v" "v \<le> 1"
    and r: "0 \<le> r" "r \<le> 1"
  shows "\<exists>d. getRandomDelay cfg r = Some d \<and>
           fl (b + fl (- (1 / 2) * fl (b * v))) \<le> d \<and>
           d \<le> fl (b + fl (1 / 2 * fl (b * v))) \<and>
           b * (1 - v / 2) * (1 - 1 / 2 ^ 50) - 1 / 2 ^ 1073 \<le> d \<and>
           d \<le> b * (1 + v / 2) * (1 + 1 / 2 ^ 50) + 1 / 2 ^ 1073"
proof -
  define M :: real where "M = of_int 1 * 2 ^ 1022"
  have flM: "fl M = M" unfolding M_def by (rule fl_pow2) simp_all
  have M: "1 \<le> M" "2 ^ 1023 = 2 * M" "3 * 2 ^ 1022 = 3 * M" by (simp_all add: M_def)
  have fl2M: "fl (2 * M) = 2 * M"
  proof -
    have "2 * M = of_int 2 * 2 ^ 1022" by (simp add: M_def)
    then show ?thesis using fl_pow2 [of 2 1022] by simp
  qed
  have fin: "double x = Some (fl x)" if "\<bar>x\<bar> \<le> 3 * M" for x
    using that double_finite [of x] by (simp only: M)
  from b have bM: "b \<le> 2 * M" by (simp only: M)
  define K where "K = b * v"
  define V where "V = fl K"
  from b(2) v(2) have bv0: "0 \<le> K" by (simp add: K_def)
  from b(2) v(3) have "b * v \<le> b * 1" by (intro mult_left_mono)
  then have Kb: "K \<le> b" by (simp add: K_def)
  with bM have bvM: "K \<le> 2 * M" by simp
  have V0: "0 \<le> V" unfolding V_def using bv0 by (rule fl_nonneg)
  have VM: "V \<le> 2 * M" unfolding V_def using fl_mono [OF bvM] by (simp only: fl2M)
  have dV: "double (b * v) = Some V" unfolding V_def K_def [symmetric] using bv0 bvM M(1) by (intro fin) simp
  define s where "s = fl (r - 1 / 2)"
  from r have "- (1 / 2) \<le> r - 1 / 2" "r - 1 / 2 \<le> 1 / 2" by simp_all
  from fl_mono [OF this(1)] fl_mono [OF this(2)]
  have s: "- (1 / 2) \<le> s" "s \<le> 1 / 2" by (simp_all add: s_def fl_minus fl_half)
  have ds: "double (r - 1 / 2) = Some s" unfolding s_def using r M(1) by (intro fin) simp
  define p where "p = fl (s * V)"
  define P where "P = fl (1 / 2 * V)"
  have sV: "- (1 / 2) * V \<le> s * V" "s * V \<le> 1 / 2 * V"
    using mult_right_mono [OF s(1) V0] mult_right_mono [OF s(2) V0] by blast+
  have mP: "fl (- (1 / 2) * V) = - P" using fl_minus [of "1 / 2 * V"] by (simp add: P_def)
  have p: "- P \<le> p" "p \<le> P"
    unfolding p_def P_def mP [symmetric, unfolded P_def] using sV by (simp_all only: fl_mono)
  from VM have "1 / 2 * V \<le> M" by simp
  from fl_mono [OF this] have PM: "P \<le> M" by (simp only: P_def flM)
  from V0 have P0: "0 \<le> P" unfolding P_def by (intro fl_nonneg) simp
  from p PM have pM: "- M \<le> p" "p \<le> M" by simp_all
  have dp: "double (s * V) = Some p"
    unfolding p_def using sV VM V0 M(1) by (intro fin) (simp add: abs_le_iff)
  define d where "d = fl (b + p)"
  define Lo where "Lo = fl (b - P)"
  define Up where "Up = fl (b + P)"
  from p have "b - P \<le> b + p" "b + p \<le> b + P" by simp_all
  then have dB: "Lo \<le> d" "d \<le> Up"
    unfolding d_def Lo_def Up_def by (simp_all only: fl_mono)
  have dd: "double (b + p) = Some d"
    unfolding d_def using pM b(2) bM by (intro fin) (simp add: abs_le_iff)
  have g: "getRandomDelay cfg r = Some d"
    by (simp add: getRandomDelay_def Let_def b(1) v(1) dmul_def dsub_def dadd_def dV ds dp dd)
  define eta :: real where "eta = 1 / 2 ^ 1075"
  have eta: "0 \<le> eta" "4 * eta = 1 / 2 ^ 1073" by (simp_all add: eta_def)
  have err: "\<bar>fl x - x\<bar> \<le> \<bar>x\<bar> / 2 ^ 53 + eta" for x unfolding eta_def by (rule fl_err)
  from err [of K] bv0 have V1: "V \<le> K + K / 2 ^ 53 + eta" by (simp add: V_def)
  from err [of "1 / 2 * V"] V0 have P1: "P \<le> V / 2 + V / 2 / 2 ^ 53 + eta" by (simp add: P_def)
  from err [of "b + P"] b(2) P0 have U1: "Up \<le> b + P + (b + P) / 2 ^ 53 + eta" by (simp add: Up_def)
  from b(2) P0 have "\<bar>b - P\<bar> \<le> b + P" by simp
  then have a1: "\<bar>b - P\<bar> / 2 ^ 53 \<le> (b + P) / 2 ^ 53" by (intro divide_right_mono) simp_all
  have a2: "b - P - fl (b - P) \<le> \<bar>b - P\<bar> / 2 ^ 53 + eta"
    using err [of "b - P"] by (simp only: abs_le_iff) simp
  from a1 a2 have L1: "b - P - (b + P) / 2 ^ 53 - eta \<le> Lo"
    unfolding Lo_def by linarith
  have lo: "(b - K / 2) * (1 - 1 / 2 ^ 50) - 4 * eta \<le> Lo"
    using L1 P1 V1 Kb bv0 b(2) eta(1) by simp argo
  have up: "Up \<le> (b + K / 2) * (1 + 1 / 2 ^ 50) + 4 * eta"
    using U1 P1 V1 Kb bv0 b(2) eta(1) by simp argo
  have alg: "b * (1 - v / 2) = b - K / 2" "b * (1 + v / 2) = b + K / 2"
    by (simp_all add: K_def algebra_simps)
  from lo up dB have "b * (1 - v / 2) * (1 - 1 / 2 ^ 50) - 1 / 2 ^ 1073 \<le> d"
    "d \<le> b * (1 + v / 2) * (1 + 1 / 2 ^ 50) + 1 / 2 ^ 1073"
    unfolding alg eta(2) [symmetric] by linarith+
  moreover have "fl (b + fl (- (1 / 2) * fl (b * v))) = Lo" "fl (b + fl (1 / 2 * fl (b * v))) = Up"
    using mP by (simp_all add: Lo_def Up_def P_def V_def K_def)
  ultimately show ?thesis using g dB by blast
qed

theorem getRandomDelay_between_witness:
  "submissionDelay defaultConfig = Some 5000 \<and> (0::real) \<le> 5000 \<and> (5000::real) \<le> 2 ^ 1023 \<and>
   randomDelayVariation defaultConfig = Some (fl (1 / 5)) \<and> 0 \<le> fl (1 / 5) \<and> fl (1 / 5) \<le> 1 \<and>
   (0::real) \<le> 1 / 4 \<and> (1 / 4 :: real) \<le> 1 \<and>
   getRandomDelay defaultConfig (1 / 4) = Some 4750 \<and>
   fl (5000 + fl (- (1 / 2) * fl (5000 * fl (1 / 5)))) = 4500 \<and>
   fl (5000 + fl (1 / 2 * fl (5000 * fl (1 / 5)))) = 5500 \<and>
   (4500::real) \<le> 4750 \<and> (4750::real) \<le> 5500 \<and>
   5000 * (1 - fl (1 / 5) / 2) * (1 - 1 / 2 ^ 50) - 1 / 2 ^ 1073 \<le> 4750 \<and>
   4750 \<le> 5000 * (1 + fl (1 / 5) / 2) * (1 + 1 / 2 ^ 50) + 1 / 2 ^ 1073"
proof -
  have b: "submissionDelay defaultConfig = Some 5000" "(0::real) \<le> 5000" "(5000::real) \<le> 2 ^ 1023"
    by (simp_all add: defaultConfig_def)
  have v: "randomDelayVariation defaultConfig = Some (fl (1 / 5))" "0 \<le> fl (1 / 5)" "fl (1 / 5) \<le> 1"
    by (simp_all add: defaultConfig_def fifth_bounds)
  have r: "(0::real) \<le> 1 / 4" "(1 / 4 :: real) \<le> 1" by simp_all
  from getRandomDelay_between [OF b v r] obtain d where
    g: "getRandomDelay defaultConfig (1 / 4) = Some d"
    and e: "fl (5000 + fl (- (1 / 2) * fl (5000 * fl (1 / 5)))) \<le> d"
      "d \<le> fl (5000 + fl (1 / 2 * fl (5000 * fl (1 / 5))))"
    and w: "5000 * (1 - fl (1 / 5) / 2) * (1 - 1 / 2 ^ 50) - 1 / 2 ^ 1073 \<le> d"
      "d \<le> 5000 * (1 + fl (1 / 5) / 2) * (1 + 1 / 2 ^ 50) + 1 / 2 ^ 1073"
    by blast
  from g have d: "d = 4750" by (simp add: delay_at_quarter)
  from b v r e interval_ends d have
    "submissionDelay defaultConfig = Some 5000 \<and> (0::real) \<le> 5000 \<and> (5000::real) \<le> 2 ^ 1023 \<and>
     randomDelayVariation defaultConfig = Some (fl (1 / 5)) \<and> 0 \<le> fl (1 / 5) \<and> fl (1 / 5) \<le> 1 \<and>
     (0::real) \<le> 1 / 4 \<and> (1 / 4 :: real) \<le> 1 \<and>
     getRandomDelay defaultConfig (1 / 4) = Some 4750 \<and>
     fl (5000 + fl (- (1 / 2) * fl (5000 * fl (1 / 5)))) = 4500 \<and>
     fl (5000 + fl (1 / 2 * fl (5000 * fl (1 / 5)))) = 5500 \<and>
     (4500::real) \<le> 4750 \<and> (4750::real) \<le> 5500"
    by (simp add: delay_at_quarter)
  with w [unfolded d] show ?thesis by blast
qed

text \<open>
  The exact interval is missed by a rounding error: with a base delay of 13 ms, the
  variation 0.2 and the random value 0, the code returns the double 11.7, which is
  below \<open>13 * (1 - variation / 2)\<close>.
\<close>

theorem getRandomDelay_interval_counterexample:
  "submissionDelay thirteen = Some 13 \<and>
   randomDelayVariation thirteen = Some (3602879701896397 / 2 ^ 54) \<and>
   getRandomDelay thirteen 0 = Some (6586514455029350 / 2 ^ 49) \<and>
   (6586514455029350 / 2 ^ 49 :: real) < 13 * (1 - 3602879701896397 / 2 ^ 54 / 2)"
  using delay_thirteen by (simp add: thirteen_def defaultConfig_def fl_fifth)

subsection \<open>Pause and stop\<close>

text \<open>
  Claim C9. \<^verbatim>\<open>pause()\<close> and \<^verbatim>\<open>stop()\<close> are idempotent: in every state of the engine,
  calling either twice in a row leaves the engine in the state that calling it once does.
\<close>

theorem pause_stop_idempotent:
  "pause (pause w) = pause w \<and> stop (stop w) = stop w"
  by (simp add: pause_def stop_def)

text \<open>
  Claim C10. \<^verbatim>\<open>pause()\<close> and \<^verbatim>\<open>stop()\<close> are the same operation on the engine: in every
  state both clear the running flag and change nothing else, so the engine after a pause
  is the engine after a stop, and a following \<^verbatim>\<open>resume()\<close> does the same on both.
\<close>

theorem pause_is_stop:
  "pause w = stop w \<and> stop w = w\<lparr>isRunning := False\<rparr> \<and>
   resume env (pause w) = resume env (stop w)"
  by (simp add: pause_def stop_def)

end
